theory Spec2Isabelle
  imports Main "HOL-Library.Word"
begin

section \<open>The thread pool of threadpool.cpp\<close>

text \<open>
  A shallow embedding of \<^verbatim>\<open>src/threadpool.cpp\<close>: the classes \<^verbatim>\<open>ThreadPool\<close>,
  \<^verbatim>\<open>Thread\<close>, \<^verbatim>\<open>Task\<close> and \<^verbatim>\<open>Result\<close>. Objects live in a store indexed by
  addresses, every member function takes the store and returns the updated one, and the
  body of a worker (\<^verbatim>\<open>ThreadPool::threadFunc\<close>) is cut into the steps it performs
  between two points where it can be suspended.
\<close>

subsection \<open>Values\<close>

text \<open>
  A C++ \<^verbatim>\<open>int\<close> is a 32-bit two's complement word: \<open>+\<close> and \<open>-\<close> wrap around,
  \<open><s\<close> and \<open>\<le>s\<close> compare the signed values. The conversion \<^verbatim>\<open>(size_t)\<close> of an
  \<^verbatim>\<open>int\<close> to the 64-bit unsigned type reduces its signed value modulo \<open>2 ^ 64\<close>. The
  size of the queue, a \<^verbatim>\<open>size_t\<close>, is the length of a list.
\<close>

type_synonym cint = "32 word"

definition size_t_of :: "cint \<Rightarrow> nat" where
  "size_t_of i = nat (sint i mod 2 ^ 64)"

definition TASK_MAX_THRESHHOLD :: cint where
  "TASK_MAX_THRESHHOLD = 2147483647"

definition THREAD_MAX_THRESHHOLD :: cint where
  "THREAD_MAX_THRESHHOLD = 1024"

definition THREAD_MAX_IDLE_TIME :: int where
  "THREAD_MAX_IDLE_TIME = 60"

text \<open>Addresses of \<^verbatim>\<open>Task\<close> and \<^verbatim>\<open>Result\<close> objects.\<close>

type_synonym addr = nat

datatype PoolMode = MODE_FIXED | MODE_CACHED

text \<open>
  Modelled from the spec: the class \<^verbatim>\<open>Any\<close> is declared in \<^verbatim>\<open>threadpool.h\<close>, which is
  not part of the sources. The spec describes it as a type-erased container that carries an
  arbitrary payload. \<open>Any_null\<close> is the container that holds nothing (a default constructed
  or moved-from one), \<open>Any_cstr s\<close> holds a C string, as \<^verbatim>\<open>return "";\<close> in
  \<^verbatim>\<open>Result::get\<close> builds, and \<open>Any_val v\<close> holds any other payload.
\<close>

datatype 'v Any = Any_null | Any_cstr string | Any_val 'v

subsection \<open>Objects\<close>

text \<open>
  Modelled from the spec: the member declarations of the four classes are in
  \<^verbatim>\<open>threadpool.h\<close>, which is not part of the sources. The fields below are the members
  that \<^verbatim>\<open>threadpool.cpp\<close> reads and writes; the counters and thresholds have the type
  \<^verbatim>\<open>int\<close> of the constants and parameters they are assigned from. The counting
  semaphore \<^verbatim>\<open>sem_\<close> of a \<^verbatim>\<open>Result\<close> ("a counting wait/signal primitive") is the number
  of signals posted and not yet consumed. The value that the virtual \<^verbatim>\<open>Task::run\<close>
  of a task object produces is the field \<open>run\<close>. A name cannot end in an
  underscore here, so the member \<^verbatim>\<open>taskQue_\<close> is the field \<open>taskQue\<close>, and so on.
\<close>

record Thread =
  threadId :: cint

record 'v Task =
  run :: "'v Any"
  result :: "addr option"

record 'v Result =
  isValid :: bool
  task :: addr
  any :: "'v Any"
  sem :: nat

record ThreadPool =
  threads :: "cint \<rightharpoonup> Thread"
  initThreadSize :: cint
  threadSizeThreshHold :: cint
  curThreadSize :: cint
  idleThreadSize :: cint
  taskQue :: "addr list"
  taskSize :: cint
  taskQueMaxThreshHold :: cint
  poolMode :: PoolMode
  isPoolRunning :: bool

subsection \<open>Construction and configuration\<close>

definition ThreadPool_ctor :: ThreadPool where
  "ThreadPool_ctor =
     \<lparr> threads = Map.empty,
       initThreadSize = 0,
       threadSizeThreshHold = THREAD_MAX_THRESHHOLD,
       curThreadSize = 0,
       idleThreadSize = 0,
       taskQue = [],
       taskSize = 0,
       taskQueMaxThreshHold = TASK_MAX_THRESHHOLD,
       poolMode = MODE_FIXED,
       isPoolRunning = False \<rparr>"

definition checkRunningState :: "'a ThreadPool_scheme \<Rightarrow> bool" where
  "checkRunningState p = isPoolRunning p"

definition setMode :: "PoolMode \<Rightarrow> 'a ThreadPool_scheme \<Rightarrow> 'a ThreadPool_scheme" where
  "setMode mode p =
     (if checkRunningState p then p
      else p\<lparr>poolMode := mode\<rparr>)"

definition setTaskQueMaxThreshHold :: "cint \<Rightarrow> 'a ThreadPool_scheme \<Rightarrow> 'a ThreadPool_scheme" where
  "setTaskQueMaxThreshHold threshhold p =
     (if checkRunningState p then p
      else p\<lparr>taskQueMaxThreshHold := threshhold\<rparr>)"

definition setThreadSizeThreshHold :: "cint \<Rightarrow> 'a ThreadPool_scheme \<Rightarrow> 'a ThreadPool_scheme" where
  "setThreadSizeThreshHold threshhold p =
     (if checkRunningState p then p
      else if poolMode p = MODE_CACHED then p\<lparr>threadSizeThreshHold := threshhold\<rparr>
      else p)"

subsection \<open>The program state\<close>

text \<open>
  A worker is one detached \<^verbatim>\<open>std::thread\<close> running \<^verbatim>\<open>threadFunc(threadid)\<close>. Its
  local state is its argument, its place in the body and its variable \<^verbatim>\<open>lastTime\<close>.
  The places are the points where another thread can run before the worker goes on:
  \<open>Entry\<close> before the first statement, \<open>AtLock\<close> before the lock is taken at the top of
  \<^verbatim>\<open>for (;;)\<close>, \<open>WaitTimed\<close> inside \<^verbatim>\<open>notEmpty_.wait_for\<close> (line 177), \<open>WaitUntimed\<close> inside
  \<^verbatim>\<open>notEmpty_.wait\<close> (line 201), \<open>Running t\<close> after the lock is released with the local
  \<^verbatim>\<open>task\<close> pointing to \<open>t\<close> (line 233), \<open>Ran\<close> after \<^verbatim>\<open>task->exec()\<close> (line 241) and
  \<open>Exited\<close> after a \<^verbatim>\<open>return\<close>.
\<close>

datatype location = Entry | AtLock | WaitTimed | WaitUntimed | Running addr | Ran | Exited

record worker =
  threadid :: cint
  loc :: location
  lastTime :: int

text \<open>
  The state of the program: the members of the pool, the static counter
  \<^verbatim>\<open>Thread::generateId_\<close>, the store of \<^verbatim>\<open>Task\<close> objects (made by the callers), the store of
  \<^verbatim>\<open>Result\<close> objects, and the workers launched so far. \<open>run_calls\<close> is not a variable of
  the program: it records, in order, the task of every call of \<^verbatim>\<open>run()\<close>.
\<close>

record 'v world = ThreadPool +
  generateId :: cint
  tasks :: "addr \<Rightarrow> 'v Task"
  results :: "addr \<Rightarrow> 'v Result"
  run_calls :: "addr list"
  workers :: "worker list"

subsection \<open>Task and Result\<close>

definition Task_ctor :: "'v Any \<Rightarrow> 'v Task" where
  "Task_ctor r = \<lparr> run = r, result = None \<rparr>"

definition setResult :: "addr \<Rightarrow> addr \<Rightarrow> 'v world \<Rightarrow> 'v world" where
  "setResult this res w = w\<lparr>tasks := (tasks w)(this := (tasks w this)\<lparr>result := Some res\<rparr>)\<rparr>"

text \<open>\<^verbatim>\<open>sem_.post()\<close> adds one signal to the semaphore.\<close>

definition setVal :: "addr \<Rightarrow> 'v Any \<Rightarrow> 'v world \<Rightarrow> 'v world" where
  "setVal this a w =
     w\<lparr>results := (results w)(this := (results w this)\<lparr>any := a, sem := Suc (sem (results w this))\<rparr>)\<rparr>"

definition exec :: "addr \<Rightarrow> 'v world \<Rightarrow> 'v world" where
  "exec this w =
     (case result (tasks w this) of
        None \<Rightarrow> w
      | Some res \<Rightarrow> setVal res (run (tasks w this)) (w\<lparr>run_calls := run_calls w @ [this]\<rparr>))"

text \<open>
  The constructor \<^verbatim>\<open>Result(task, isValid)\<close> builds the object at the address \<open>this\<close>, the
  storage the caller of \<^verbatim>\<open>submitTask\<close> receives the returned object in, with an empty
  \<^verbatim>\<open>any_\<close> and no signal in \<^verbatim>\<open>sem_\<close>, and points the task back to it.
\<close>

definition Result_ctor :: "addr \<Rightarrow> addr \<Rightarrow> bool \<Rightarrow> 'v world \<Rightarrow> 'v world" where
  "Result_ctor this sp valid w =
     setResult sp this
       (w\<lparr>results := (results w)(this := \<lparr> isValid = valid, task = sp, any = Any_null, sem = 0 \<rparr>)\<rparr>)"

text \<open>
  \<^verbatim>\<open>Result::get\<close> either returns a value or stays in \<^verbatim>\<open>sem_.wait()\<close>, which takes one signal
  when there is one and blocks the caller when there is none. \<^verbatim>\<open>std::move(any_)\<close> leaves
  the member empty.
\<close>

datatype 'v outcome = Returned "'v Any" | Blocked

definition get :: "addr \<Rightarrow> 'v world \<Rightarrow> 'v outcome \<times> 'v world" where
  "get this w =
     (if \<not> isValid (results w this) then (Returned (Any_cstr ''''), w)
      else if sem (results w this) = 0 then (Blocked, w)
      else (Returned (any (results w this)),
            w\<lparr>results := (results w)(this := (results w this)
                 \<lparr>any := Any_null, sem := sem (results w this) - 1\<rparr>)\<rparr>))"

subsection \<open>Thread\<close>

definition Thread_ctor :: "'v world \<Rightarrow> Thread \<times> 'v world" where
  "Thread_ctor w = (\<lparr> threadId = generateId w \<rparr>, w\<lparr>generateId := generateId w + 1\<rparr>)"

definition getId :: "Thread \<Rightarrow> cint" where
  "getId t = threadId t"

text \<open>\<^verbatim>\<open>Thread::start\<close> launches a detached thread that runs \<^verbatim>\<open>func_(threadId_)\<close>.\<close>

definition Thread_start :: "Thread \<Rightarrow> 'v world \<Rightarrow> 'v world" where
  "Thread_start t w =
     w\<lparr>workers := workers w @ [\<lparr> threadid = threadId t, loc = Entry, lastTime = 0 \<rparr>]\<rparr>"

text \<open>\<^verbatim>\<open>unordered_map::emplace\<close> inserts only when the key is absent.\<close>

definition emplace :: "'k \<Rightarrow> 'a \<Rightarrow> ('k \<rightharpoonup> 'a) \<Rightarrow> ('k \<rightharpoonup> 'a)" where
  "emplace k v m = (case m k of None \<Rightarrow> m(k \<mapsto> v) | Some _ \<Rightarrow> m)"

subsection \<open>ThreadPool::submitTask\<close>

text \<open>
  The predicate that \<^verbatim>\<open>submitTask\<close> passes to \<^verbatim>\<open>notFull_.wait_for\<close> (line 71). The queue
  length is a \<^verbatim>\<open>size_t\<close> and the threshold is converted to one.
\<close>

definition notFull_pred :: "'a ThreadPool_scheme \<Rightarrow> bool" where
  "notFull_pred p = (length (taskQue p) < size_t_of (taskQueMaxThreshHold p))"

text \<open>
  Lines 94 to 101: a new \<^verbatim>\<open>Thread\<close> is registered under its id, the thread registered
  under that id is started, and the two counters are incremented. After \<^verbatim>\<open>emplace\<close> the
  key is present, so \<^verbatim>\<open>threads_[threadId]\<close> finds an element.
\<close>

definition add_thread :: "'v world \<Rightarrow> 'v world" where
  "add_thread w =
     (let (ptr, w1) = Thread_ctor w;
          tid = getId ptr;
          w2 = w1\<lparr>threads := emplace tid ptr (threads w1)\<rparr>;
          w3 = Thread_start (case threads w2 tid of Some t \<Rightarrow> t | None \<Rightarrow> ptr) w2
      in w3\<lparr>curThreadSize := curThreadSize w3 + 1, idleThreadSize := idleThreadSize w3 + 1\<rparr>)"

text \<open>
  \<^verbatim>\<open>wait_for(lock, 1s, pred)\<close> returns the value of \<^verbatim>\<open>pred()\<close>, computed with the lock
  held, either as soon as it is true or when the second has passed. The rest of the body
  runs without releasing the lock, so \<open>submitTask sp res w\<close> is the effect of the call on
  the state \<open>w\<close> in which \<^verbatim>\<open>wait_for\<close> returns. \<open>sp\<close> is the task (a non-null pointer: the
  constructor of \<^verbatim>\<open>Result\<close> dereferences it) and \<open>res\<close> the address of the returned
  \<^verbatim>\<open>Result\<close>.
\<close>

definition submitTask :: "addr \<Rightarrow> addr \<Rightarrow> 'v world \<Rightarrow> 'v world" where
  "submitTask sp res w =
     (if \<not> notFull_pred w then Result_ctor res sp False w
      else
        let w1 = w\<lparr>taskQue := taskQue w @ [sp], taskSize := taskSize w + 1\<rparr>;
            w2 = (if poolMode w1 = MODE_CACHED
                     \<and> idleThreadSize w1 <s taskSize w1
                     \<and> curThreadSize w1 <s threadSizeThreshHold w1
                  then add_thread w1 else w1)
        in Result_ctor res sp True w2)"

subsection \<open>ThreadPool::start\<close>

text \<open>
  The first loop (lines 120 to 127) makes the \<^verbatim>\<open>Thread\<close> objects, the second (lines 130
  to 134) starts \<^verbatim>\<open>threads_[i]\<close> for \<open>i = 0, 1, ...\<close>. When no thread is registered under
  \<open>i\<close>, \<^verbatim>\<open>threads_[i]\<close> is a null pointer and the call through it is the fault
  \<open>NullThread i\<close>. Both loops run \<open>nat (sint initThreadSize)\<close> times, which is 0 for a
  negative argument. The body takes no lock; it is one step here, so the workers it
  launches move after it.
\<close>

datatype fault = NullThread cint

fun create_threads :: "nat \<Rightarrow> 'v world \<Rightarrow> 'v world" where
  "create_threads 0 w = w"
| "create_threads (Suc k) w =
     (let (ptr, w1) = Thread_ctor w;
          tid = getId ptr
      in create_threads k (w1\<lparr>threads := emplace tid ptr (threads w1)\<rparr>))"

fun start_threads :: "nat \<Rightarrow> cint \<Rightarrow> 'v world \<Rightarrow> fault + 'v world" where
  "start_threads 0 i w = Inr w"
| "start_threads (Suc k) i w =
     (case threads w i of
        None \<Rightarrow> Inl (NullThread i)
      | Some t \<Rightarrow>
          (let w1 = Thread_start t w
           in start_threads k (i + 1) (w1\<lparr>idleThreadSize := idleThreadSize w1 + 1\<rparr>)))"

definition start :: "cint \<Rightarrow> 'v world \<Rightarrow> fault + 'v world" where
  "start initThreadSize' w =
     (let w1 = w\<lparr>isPoolRunning := True,
                  initThreadSize := initThreadSize',
                  curThreadSize := initThreadSize'\<rparr>;
          n = nat (sint (initThreadSize w1))
      in start_threads n 0 (create_threads n w1))"

subsection \<open>ThreadPool::threadFunc\<close>

definition set_loc :: "nat \<Rightarrow> location \<Rightarrow> 'v world \<Rightarrow> 'v world" where
  "set_loc i l w = w\<lparr>workers := (workers w)[i := (workers w ! i)\<lparr>loc := l\<rparr>]\<rparr>"

text \<open>
  Lines 161 to 233, from the test of \<^verbatim>\<open>while (taskQue_.size() == 0)\<close> with the lock held
  to the next point where worker \<open>i\<close> gives the lock up: a \<^verbatim>\<open>return\<close>, a wait, or the end
  of the block after a task is taken.
\<close>

definition loop_head :: "nat \<Rightarrow> 'v world \<Rightarrow> 'v world" where
  "loop_head i w =
     (case taskQue w of
        [] \<Rightarrow>
          (if \<not> isPoolRunning w
           then set_loc i Exited (w\<lparr>threads := (threads w)(threadid (workers w ! i) := None)\<rparr>)
           else if poolMode w = MODE_CACHED then set_loc i WaitTimed w
           else set_loc i WaitUntimed w)
      | front # rest \<Rightarrow>
          set_loc i (Running front)
            (w\<lparr>idleThreadSize := idleThreadSize w - 1,
               taskQue := rest,
               taskSize := taskSize w - 1\<rparr>))"

text \<open>
  \<^verbatim>\<open>duration_cast<seconds>(now - lastTime).count()\<close>: clock readings count nanoseconds,
  and the cast truncates towards zero.
\<close>

definition dur_count :: "int \<Rightarrow> int \<Rightarrow> int" where
  "dur_count before now = sgn (now - before) * (\<bar>now - before\<bar> div 1000000000)"

text \<open>
  Lines 176 to 196, when \<^verbatim>\<open>wait_for\<close> returns in worker \<open>i\<close> with the lock held again:
  \<open>timed_out\<close> says whether it returned \<^verbatim>\<open>cv_status::timeout\<close>, \<open>now\<close> is the clock reading
  of line 179. A worker that is not reclaimed goes back to the test of the loop.
\<close>

definition after_wait_for :: "nat \<Rightarrow> bool \<Rightarrow> int \<Rightarrow> 'v world \<Rightarrow> 'v world" where
  "after_wait_for i timed_out now w =
     (if timed_out
         \<and> THREAD_MAX_IDLE_TIME \<le> dur_count (lastTime (workers w ! i)) now
         \<and> initThreadSize w <s curThreadSize w
      then set_loc i Exited
             (w\<lparr>threads := (threads w)(threadid (workers w ! i) := None),
                curThreadSize := curThreadSize w - 1,
                idleThreadSize := idleThreadSize w - 1\<rparr>)
      else loop_head i w)"

text \<open>
  One step of worker \<open>i\<close>, from its place to the next. \<open>timed_out\<close> and \<open>now\<close> are what
  the worker gets from the condition variable and the clock in this step. A wait may
  return at any time (a notification or a spurious wake-up). The task taken from the
  queue is never null, so the test of line 237 holds. A worker that has returned, or an
  index that names no worker, does nothing.
\<close>

definition threadFunc :: "nat \<Rightarrow> bool \<Rightarrow> int \<Rightarrow> 'v world \<Rightarrow> 'v world" where
  "threadFunc i timed_out now w =
     (if i < length (workers w) then
        (case loc (workers w ! i) of
           Entry \<Rightarrow> w\<lparr>workers := (workers w)[i := (workers w ! i)\<lparr>loc := AtLock, lastTime := now\<rparr>]\<rparr>
         | AtLock \<Rightarrow> loop_head i w
         | WaitTimed \<Rightarrow> after_wait_for i timed_out now w
         | WaitUntimed \<Rightarrow> loop_head i w
         | Running t \<Rightarrow> set_loc i Ran (exec t w)
         | Ran \<Rightarrow>
             w\<lparr>idleThreadSize := idleThreadSize w + 1,
               workers := (workers w)[i := (workers w ! i)\<lparr>loc := AtLock, lastTime := now\<rparr>]\<rparr>
         | Exited \<Rightarrow> w)
      else w)"

subsection \<open>The destructor\<close>

text \<open>
  \<^verbatim>\<open>~ThreadPool\<close> clears the running flag, wakes the waiting workers and then waits
  until the registry is empty.
\<close>

definition dtor_begin :: "'a ThreadPool_scheme \<Rightarrow> 'a ThreadPool_scheme" where
  "dtor_begin p = p\<lparr>isPoolRunning := False\<rparr>"

definition dtor_can_return :: "'a ThreadPool_scheme \<Rightarrow> bool" where
  "dtor_can_return p = (threads p = Map.empty)"

subsection \<open>Runs of the program\<close>

text \<open>
  The state before any call: a constructed pool, no thread id given out, the tasks of
  the callers (\<open>runs a\<close> is the value that the task at address \<open>a\<close> produces), no
  \<^verbatim>\<open>Result\<close> (the store holds invalid ones everywhere), no worker.
\<close>

definition initial :: "(addr \<Rightarrow> 'v Any) \<Rightarrow> 'v world" where
  "initial runs =
     ThreadPool.extend ThreadPool_ctor
       (world.fields 0 (\<lambda>a. Task_ctor (runs a))
          (\<lambda>a. \<lparr> isValid = False, task = a, any = Any_null, sem = 0 \<rparr>) [] [])"

text \<open>
  The calls the callers make and the steps the workers take. Each is one step of the
  program; a run is a list of them, and stops at the first fault.
\<close>

datatype event =
    SetMode PoolMode
  | SetTaskQueMaxThreshHold cint
  | SetThreadSizeThreshHold cint
  | Start cint
  | SubmitTask addr addr
  | Get addr
  | Worker nat bool int
  | Teardown

fun step :: "event \<Rightarrow> 'v world \<Rightarrow> fault + 'v world" where
  "step (SetMode mode) w = Inr (setMode mode w)"
| "step (SetTaskQueMaxThreshHold t) w = Inr (setTaskQueMaxThreshHold t w)"
| "step (SetThreadSizeThreshHold t) w = Inr (setThreadSizeThreshHold t w)"
| "step (Start n) w = start n w"
| "step (SubmitTask sp res) w = Inr (submitTask sp res w)"
| "step (Get res) w = Inr (snd (get res w))"
| "step (Worker i timed_out now) w = Inr (threadFunc i timed_out now w)"
| "step Teardown w = Inr (dtor_begin w)"

fun run_events :: "event list \<Rightarrow> 'v world \<Rightarrow> fault + 'v world" where
  "run_events [] w = Inr w"
| "run_events (e # es) w = (case step e w of Inl f \<Rightarrow> Inl f | Inr w' \<Rightarrow> run_events es w')"

text \<open>
  The idle reclamation of lines 181 to 195 is what worker \<open>i\<close> does in its step: it
  returns from \<^verbatim>\<open>wait_for\<close> with a timeout, its idle time has reached
  \<^verbatim>\<open>THREAD_MAX_IDLE_TIME\<close> and the worker count is above the baseline. In every other step
  from \<open>AtLock\<close>, \<open>WaitTimed\<close> or \<open>WaitUntimed\<close> the worker evaluates the test of its
  \<^verbatim>\<open>while\<close> loop.
\<close>

definition reclaims :: "nat \<Rightarrow> bool \<Rightarrow> int \<Rightarrow> 'v world \<Rightarrow> bool" where
  "reclaims i timed_out now w =
     (loc (workers w ! i) = WaitTimed
      \<and> timed_out
      \<and> THREAD_MAX_IDLE_TIME \<le> dur_count (lastTime (workers w ! i)) now
      \<and> initThreadSize w <s curThreadSize w)"

subsection \<open>What a run shows\<close>

text \<open>
  A call of \<^verbatim>\<open>submitTask\<close> accepts its task when the \<^verbatim>\<open>Result\<close> it returns is valid. A
  step of a worker takes a task from the queue when it ends with the local variable
  \<^verbatim>\<open>task\<close> set, at the place \<open>Running t\<close>; a worker that is already there executes its
  task in its step and takes none. \<open>accepted es w\<close> and \<open>dequeued es w\<close> list, in the order
  of the run \<open>es\<close> from \<open>w\<close>, the tasks accepted and the tasks taken.
\<close>

definition accepted_by :: "event \<Rightarrow> 'v world \<Rightarrow> addr list" where
  "accepted_by e w =
     (case e of
        SubmitTask sp res \<Rightarrow> if isValid (results (submitTask sp res w) res) then [sp] else []
      | _ \<Rightarrow> [])"

definition taking_place :: "location \<Rightarrow> bool" where
  "taking_place l = (l = AtLock \<or> l = WaitTimed \<or> l = WaitUntimed)"

definition dequeued_by :: "event \<Rightarrow> 'v world \<Rightarrow> addr list" where
  "dequeued_by e w =
     (case e of
        Worker i timed_out now \<Rightarrow>
          if i < length (workers w) \<and> taking_place (loc (workers w ! i))
          then (case loc (workers (threadFunc i timed_out now w) ! i) of
                  Running t \<Rightarrow> [t]
                | _ \<Rightarrow> [])
          else []
      | _ \<Rightarrow> [])"

fun accepted :: "event list \<Rightarrow> 'v world \<Rightarrow> addr list" where
  "accepted [] w = []"
| "accepted (e # es) w =
     accepted_by e w @ (case step e w of Inl f \<Rightarrow> [] | Inr w' \<Rightarrow> accepted es w')"

fun dequeued :: "event list \<Rightarrow> 'v world \<Rightarrow> addr list" where
  "dequeued [] w = []"
| "dequeued (e # es) w =
     dequeued_by e w @ (case step e w of Inl f \<Rightarrow> [] | Inr w' \<Rightarrow> dequeued es w')"

text \<open>
  A call keeps within the worker threshold when it is \<^verbatim>\<open>start\<close> with a baseline that
  is at most the threshold, or \<^verbatim>\<open>setThreadSizeThreshHold\<close> on a pool that ignores it (a
  running one, or one in fixed mode) or with a threshold that is at least the current
  worker count, or any other call or step. A run does when each of its calls does in the
  state it is made in.
\<close>

fun within_threshold :: "event \<Rightarrow> 'v world \<Rightarrow> bool" where
  "within_threshold (Start n) w = (n \<le>s threadSizeThreshHold w)"
| "within_threshold (SetThreadSizeThreshHold t) w =
     (isPoolRunning w \<or> poolMode w = MODE_FIXED \<or> curThreadSize w \<le>s t)"
| "within_threshold e w = True"

fun respects_threshold :: "event list \<Rightarrow> 'v world \<Rightarrow> bool" where
  "respects_threshold [] w = True"
| "respects_threshold (e # es) w =
     (within_threshold e w \<and>
      (case step e w of Inl f \<Rightarrow> True | Inr w' \<Rightarrow> respects_threshold es w'))"

subsection \<open>Example states\<close>

text \<open>In the examples the task at address \<open>a\<close> produces the number \<open>a * a\<close>.\<close>

definition example_runs :: "addr \<Rightarrow> nat Any" where
  "example_runs a = Any_val (a * a)"

definition fresh_pool :: "nat world" where
  "fresh_pool = initial example_runs"

text \<open>A pool started with one worker, which has reached the lock.\<close>

definition started_pool :: "nat world" where
  "started_pool = projr (run_events [Start 1, Worker 0 False 5] fresh_pool)"

text \<open>The scenario of the spec: capacity 2, two tasks accepted, no worker.\<close>

definition half_full_pool :: "nat world" where
  "half_full_pool = submitTask 1 101 (setTaskQueMaxThreshHold 2 fresh_pool)"

definition full_pool :: "nat world" where
  "full_pool = submitTask 2 102 half_full_pool"

definition negative_capacity_pool :: "nat world" where
  "negative_capacity_pool = setTaskQueMaxThreshHold (- 1) fresh_pool"

text \<open>An elastic pool with a worker threshold of 1.\<close>

definition small_cached_pool :: "nat world" where
  "small_cached_pool = setThreadSizeThreshHold 1 (setMode MODE_CACHED fresh_pool)"

text \<open>Task 7 is accepted by a started pool, and then the destructor begins.\<close>

definition torn_down_pool :: "nat world" where
  "torn_down_pool = projr (run_events [SubmitTask 7 100, Teardown] started_pool)"

text \<open>
  Task 1 is submitted twice, to the results at 101 and 102, and the worker takes and
  executes both entries of the queue.
\<close>

definition twice_submitted_pool :: "nat world" where
  "twice_submitted_pool =
     projr (run_events
       [SubmitTask 1 101, SubmitTask 1 102,
        Worker 0 False 6, Worker 0 False 7, Worker 0 False 8,
        Worker 0 False 9, Worker 0 False 10] started_pool)"

text \<open>Task 3 is accepted by a started pool and taken by the worker.\<close>

definition taken_pool :: "nat world" where
  "taken_pool = threadFunc 0 False 6 (submitTask 3 103 started_pool)"

text \<open>
  An elastic pool with baseline 0: the submission of task 1 launches a worker, which
  executes the task at time 0 and then waits, with a timeout, for the next one.
\<close>

definition idle_run :: "event list" where
  "idle_run =
     [SetMode MODE_CACHED, Start 0, SubmitTask 1 101,
      Worker 0 False 0, Worker 0 False 0, Worker 0 False 0, Worker 0 False 0,
      Worker 0 False 0]"

text \<open>
  After \<open>idle_run\<close>, task 2 is accepted while the worker waits, and then the destructor
  begins.
\<close>

definition idle_torn_down_pool :: "nat world" where
  "idle_torn_down_pool =
     projr (run_events (idle_run @ [SubmitTask 2 102, Teardown]) (initial example_runs))"

definition fifo_run :: "event list" where
  "fifo_run =
     [SubmitTask 1 101, SubmitTask 2 102, Worker 0 False 6, SubmitTask 3 103,
      Worker 0 False 7, Worker 0 False 8, Worker 0 False 9]"

definition grow_run :: "event list" where
  "grow_run = [SetMode MODE_CACHED, SetThreadSizeThreshHold 2, Start 1,
     SubmitTask 1 101, SubmitTask 2 102, SubmitTask 3 103]"

section \<open>Properties\<close>

subsection \<open>Auxiliary facts\<close>

text \<open>Unfolding the constructed pool, the operations and the shared examples.\<close>

lemmas init_simps = initial_def ThreadPool_ctor_def ThreadPool.defs world.defs Task_ctor_def
  TASK_MAX_THRESHHOLD_def THREAD_MAX_THRESHHOLD_def

lemmas op_simps = setMode_def setTaskQueMaxThreshHold_def setThreadSizeThreshHold_def
  checkRunningState_def submitTask_def notFull_pred_def size_t_of_def add_thread_def
  Thread_ctor_def getId_def Thread_start_def emplace_def Result_ctor_def setResult_def
  setVal_def exec_def get_def start_def threadFunc_def loop_head_def after_wait_for_def
  set_loc_def dtor_begin_def dur_count_def THREAD_MAX_IDLE_TIME_def Let_def
  word_sle_eq word_sless_alt numeral_2_eq_2

lemmas fresh_simps = example_runs_def fresh_pool_def started_pool_def init_simps

lemma emplace_present: "emplace k v m k \<noteq> None"
  by (simp add: emplace_def split: option.split)

text \<open>Signed 32-bit arithmetic: one step up or down does not wrap next to a bound.\<close>

lemma sint_bounds: "- 2147483648 \<le> sint (x::cint) \<and> sint x \<le> 2147483647"
  using sint_ge [of x] sint_lt [of x] by simp

lemma sint_succ: "sint (x::cint) < sint (y::cint) \<Longrightarrow> sint (x + 1) = sint x + 1"
  using sint_bounds [of x] sint_bounds [of y]
  by (simp add: sint_word_ariths signed_take_bit_int_eq_self)

lemma sint_pred: "sint (y::cint) < sint (x::cint) \<Longrightarrow> sint (x - 1) = sint x - 1"
  using sint_bounds [of x] sint_bounds [of y]
  by (simp add: sint_word_ariths signed_take_bit_int_eq_self)

lemma sle_succ: "(x::cint) <s y \<Longrightarrow> x + 1 \<le>s y"
  by (simp add: word_sless_alt word_sle_eq sint_succ)



lemma sle_pred_mono: "(b::cint) <s x \<Longrightarrow> x \<le>s y \<Longrightarrow> x - 1 \<le>s y"
  by (simp add: word_sless_alt word_sle_eq sint_pred)

lemma size_t_of_nonneg: "0 \<le>s t \<Longrightarrow> int (size_t_of t) = sint t"
  using sint_bounds [of t] by (simp add: word_sle_eq size_t_of_def)

text \<open>What \<^verbatim>\<open>submitTask\<close> does to the queue, the task and the returned \<^verbatim>\<open>Result\<close>.\<close>

lemmas submit_parts = submitTask_def Result_ctor_def setResult_def add_thread_def
  Thread_ctor_def Thread_start_def Let_def

lemma submitTask_threshold:
  "taskQueMaxThreshHold (submitTask sp res w) = taskQueMaxThreshHold w"
  by (simp add: submit_parts)

lemma submitTask_queue:
  "taskQue (submitTask sp res w) = (if notFull_pred w then taskQue w @ [sp] else taskQue w)"
  by (simp add: submit_parts)

lemma submitTask_valid: "isValid (results (submitTask sp res w) res) = notFull_pred w"
  by (simp add: submit_parts)

lemma submitTask_task:
  "tasks (submitTask sp res w) sp = (tasks w sp)\<lparr>result := Some res\<rparr>"
  by (simp add: submit_parts)

lemma submitTask_result:
  "results (submitTask sp res w) res
   = \<lparr> isValid = notFull_pred w, task = sp, any = Any_null, sem = 0 \<rparr>"
  by (simp add: submit_parts)

text \<open>What the calls and the steps of a worker do to the counters and to the queue.\<close>

lemma create_threads_frame:
  "curThreadSize (create_threads k w) = curThreadSize w
   \<and> initThreadSize (create_threads k w) = initThreadSize w
   \<and> threadSizeThreshHold (create_threads k w) = threadSizeThreshHold w
   \<and> taskQue (create_threads k w) = taskQue w
   \<and> workers (create_threads k w) = workers w"
  by (induction k arbitrary: w) (simp_all add: Thread_ctor_def Let_def)

lemma start_threads_frame:
  "start_threads k i w = Inr w' \<Longrightarrow>
   curThreadSize w' = curThreadSize w
   \<and> initThreadSize w' = initThreadSize w
   \<and> threadSizeThreshHold w' = threadSizeThreshHold w
   \<and> taskQue w' = taskQue w"
proof (induction k arbitrary: i w)
  case 0
  then show ?case by simp
next
  case (Suc k)
  then show ?case
    by (auto simp: Thread_start_def Let_def split: option.splits)
qed

lemma start_frame:
  assumes "start n w = Inr w'"
  shows "curThreadSize w' = n \<and> initThreadSize w' = n
         \<and> threadSizeThreshHold w' = threadSizeThreshHold w
         \<and> taskQue w' = taskQue w"
  using start_threads_frame [OF assms [unfolded start_def Let_def]]
  by (simp add: create_threads_frame)

lemma submitTask_counts:
  "initThreadSize (submitTask sp res w) = initThreadSize w
   \<and> threadSizeThreshHold (submitTask sp res w) = threadSizeThreshHold w
   \<and> (curThreadSize (submitTask sp res w) = curThreadSize w
      \<or> curThreadSize w <s threadSizeThreshHold w
        \<and> curThreadSize (submitTask sp res w) = curThreadSize w + 1)"
  by (simp add: submit_parts)

lemma threadFunc_counts:
  "initThreadSize (threadFunc i timed_out now w) = initThreadSize w
   \<and> threadSizeThreshHold (threadFunc i timed_out now w) = threadSizeThreshHold w
   \<and> (curThreadSize (threadFunc i timed_out now w) = curThreadSize w
      \<or> timed_out \<and> i < length (workers w) \<and> loc (workers w ! i) = WaitTimed
        \<and> THREAD_MAX_IDLE_TIME \<le> dur_count (lastTime (workers w ! i)) now
        \<and> initThreadSize w <s curThreadSize w
        \<and> loc (workers (threadFunc i timed_out now w) ! i) = Exited
        \<and> curThreadSize (threadFunc i timed_out now w) = curThreadSize w - 1)"
  by (simp add: threadFunc_def loop_head_def after_wait_for_def set_loc_def exec_def setVal_def
      split: location.split list.split option.split)

lemma get_frame:
  "initThreadSize (snd (get res w)) = initThreadSize w
   \<and> threadSizeThreshHold (snd (get res w)) = threadSizeThreshHold w
   \<and> curThreadSize (snd (get res w)) = curThreadSize w
   \<and> taskQue (snd (get res w)) = taskQue w
   \<and> workers (snd (get res w)) = workers w"
  by (simp add: get_def)

text \<open>What a worker does at the test of its loop, and with a task in its hand.\<close>

lemma loop_head_empty:
  assumes "i < length (workers w)" and "taskQue w = []" and "\<not> isPoolRunning w"
  shows "loc (workers (loop_head i w) ! i) = Exited
         \<and> taskQue (loop_head i w) = []
         \<and> threads (loop_head i w) = (threads w)(threadid (workers w ! i) := None)
         \<and> run_calls (loop_head i w) = run_calls w"
  using assms by (simp add: loop_head_def set_loc_def)

lemma loop_head_nonempty:
  assumes "i < length (workers w)" and "taskQue w = t # rest"
  shows "loc (workers (loop_head i w) ! i) = Running t
         \<and> taskQue (loop_head i w) = rest
         \<and> threads (loop_head i w) = threads w
         \<and> length (workers (loop_head i w)) = length (workers w)"
  using assms by (simp add: loop_head_def set_loc_def)

lemma threadFunc_Running:
  assumes "i < length (workers w)" and "loc (workers w ! i) = Running t"
  shows "threadFunc i timed_out now w = set_loc i Ran (exec t w)"
  using assms by (simp add: threadFunc_def)

subsection \<open>Teardown\<close>

text \<open>
  The claim that no worker takes a queued task once the running flag is cleared fails.
  In \<open>torn_down_pool\<close> the flag is cleared while task 7 is queued and the destructor
  waits for the registry to empty; the worker then takes the lock, finds the queue
  non-empty, skips the loop that tests the flag, takes task 7 and runs it.
\<close>

theorem worker_takes_task_after_teardown:
  "\<not> isPoolRunning torn_down_pool
   \<and> \<not> dtor_can_return torn_down_pool
   \<and> taskQue torn_down_pool = [7]
   \<and> loc (workers torn_down_pool ! 0) = AtLock
   \<and> loc (workers (threadFunc 0 False 6 torn_down_pool) ! 0) = Running 7
   \<and> taskQue (threadFunc 0 False 6 torn_down_pool) = []
   \<and> run_calls (threadFunc 0 False 7 (threadFunc 0 False 6 torn_down_pool)) = [7]"
  by (simp add: torn_down_pool_def dtor_can_return_def fresh_simps op_simps)

lemma threadFunc_reclaims:
  assumes "i < length (workers w)" and "reclaims i timed_out now w"
  shows "threadFunc i timed_out now w =
         set_loc i Exited
           (w\<lparr>threads := (threads w)(threadid (workers w ! i) := None),
              curThreadSize := curThreadSize w - 1,
              idleThreadSize := idleThreadSize w - 1\<rparr>)"
  using assms by (simp add: reclaims_def threadFunc_def after_wait_for_def)

lemma threadFunc_loop_test:
  assumes "i < length (workers w)" and "taking_place (loc (workers w ! i))"
    and "\<not> reclaims i timed_out now w"
  shows "threadFunc i timed_out now w = loop_head i w"
  using assms
  by (auto simp: taking_place_def reclaims_def threadFunc_def after_wait_for_def)

lemma threadFunc_elsewhere:
  assumes "i < length (workers w)" and "\<not> taking_place (loc (workers w ! i))"
  shows "(loc (workers (threadFunc i timed_out now w) ! i) = Exited)
           = (loc (workers w ! i) = Exited)
         \<and> threads (threadFunc i timed_out now w) = threads w
         \<and> taskQue (threadFunc i timed_out now w) = taskQue w"
proof (cases "loc (workers w ! i)")
  case (Running t)
  with assms show ?thesis
    by (simp add: threadFunc_def set_loc_def exec_def setVal_def split: option.split)
qed (use assms in \<open>simp_all add: threadFunc_def taking_place_def\<close>)

text \<open>
  C1, amended. The running flag does not stop the workers from taking queued tasks.
  After the flag is cleared, every step in which a worker evaluates the test of its loop
  (after taking the lock, after a wake-up from a wait, or after a timed-out wait that does
  not reclaim it) takes the task at the head of a non-empty queue, and the next step of
  that worker executes the task; at that test the worker deregisters itself and exits,
  taking and running nothing, only when it finds the queue empty. The one other step in
  which a worker exits is the idle reclamation, which tests neither the queue nor the
  flag: the worker deregisters itself and leaves the queue as it is, so a task that is
  queued then stays queued. No other step of a worker changes the queue or the registry.
\<close>

theorem worker_step_after_teardown:
  assumes "\<not> isPoolRunning w" and "i < length (workers w)"
  shows "(if reclaims i timed_out now w then
            loc (workers (threadFunc i timed_out now w) ! i) = Exited
            \<and> threads (threadFunc i timed_out now w)
                = (threads w)(threadid (workers w ! i) := None)
            \<and> taskQue (threadFunc i timed_out now w) = taskQue w
            \<and> run_calls (threadFunc i timed_out now w) = run_calls w
          else if taking_place (loc (workers w ! i)) then
            (case taskQue w of
               [] \<Rightarrow>
                 loc (workers (threadFunc i timed_out now w) ! i) = Exited
                 \<and> threads (threadFunc i timed_out now w)
                     = (threads w)(threadid (workers w ! i) := None)
                 \<and> taskQue (threadFunc i timed_out now w) = []
                 \<and> run_calls (threadFunc i timed_out now w) = run_calls w
             | t # rest \<Rightarrow>
                 loc (workers (threadFunc i timed_out now w) ! i) = Running t
                 \<and> threads (threadFunc i timed_out now w) = threads w
                 \<and> taskQue (threadFunc i timed_out now w) = rest
                 \<and> threadFunc i timed_out' now' (threadFunc i timed_out now w)
                     = set_loc i Ran (exec t (threadFunc i timed_out now w)))
          else
            (loc (workers (threadFunc i timed_out now w) ! i) = Exited)
              = (loc (workers w ! i) = Exited)
            \<and> threads (threadFunc i timed_out now w) = threads w
            \<and> taskQue (threadFunc i timed_out now w) = taskQue w)"
proof (cases "reclaims i timed_out now w")
  case True
  with threadFunc_reclaims [OF assms(2) True] assms(2) show ?thesis
    by (simp add: set_loc_def)
next
  case not_reclaimed: False
  show ?thesis
  proof (cases "taking_place (loc (workers w ! i))")
    case False
    with not_reclaimed threadFunc_elsewhere [OF assms(2) False, of timed_out now]
    show ?thesis by simp
  next
    case True
    from threadFunc_loop_test [OF assms(2) True not_reclaimed]
    have eq: "threadFunc i timed_out now w = loop_head i w" .
    show ?thesis
    proof (cases "taskQue w")
      case Nil
      with not_reclaimed True eq loop_head_empty [OF assms(2) Nil assms(1)]
      show ?thesis by simp
    next
      case (Cons t rest)
      from loop_head_nonempty [OF assms(2) Cons]
      have taken: "loc (workers (loop_head i w) ! i) = Running t"
        and left: "taskQue (loop_head i w) = rest"
        and registry: "threads (loop_head i w) = threads w"
        and inside: "i < length (workers (loop_head i w))"
        using assms(2) by simp_all
      from threadFunc_Running [OF inside taken] taken left registry Cons eq
        not_reclaimed True
      show ?thesis by simp
    qed
  qed
qed

theorem worker_step_after_teardown_witness:
  "\<not> isPoolRunning torn_down_pool
   \<and> \<not> reclaims 0 False 6 torn_down_pool
   \<and> taking_place (loc (workers torn_down_pool ! 0))
   \<and> taskQue torn_down_pool = [7]
   \<and> loc (workers (threadFunc 0 False 6 torn_down_pool) ! 0) = Running 7
   \<and> taskQue (threadFunc 0 False 6 torn_down_pool) = []
   \<and> \<not> isPoolRunning idle_torn_down_pool
   \<and> reclaims 0 True 61000000000 idle_torn_down_pool
   \<and> taskQue idle_torn_down_pool = [2]
   \<and> loc (workers (threadFunc 0 True 61000000000 idle_torn_down_pool) ! 0) = Exited
   \<and> taskQue (threadFunc 0 True 61000000000 idle_torn_down_pool) = [2]
   \<and> \<not> reclaims 0 True 59000000000 idle_torn_down_pool
   \<and> loc (workers (threadFunc 0 True 59000000000 idle_torn_down_pool) ! 0) = Running 2"
proof -
  have a: "\<not> isPoolRunning torn_down_pool"
    and b: "0 < length (workers torn_down_pool)"
    and c: "\<not> reclaims 0 False 6 torn_down_pool"
    and d: "taking_place (loc (workers torn_down_pool ! 0))"
    and q: "taskQue torn_down_pool = [7]"
    by (simp_all add: reclaims_def taking_place_def torn_down_pool_def fresh_simps op_simps)
  have a': "\<not> isPoolRunning idle_torn_down_pool"
    and b': "0 < length (workers idle_torn_down_pool)"
    and c': "reclaims 0 True 61000000000 idle_torn_down_pool"
    and d': "taking_place (loc (workers idle_torn_down_pool ! 0))"
    and e': "\<not> reclaims 0 True 59000000000 idle_torn_down_pool"
    and q': "taskQue idle_torn_down_pool = [2]"
    by (simp_all add: reclaims_def taking_place_def idle_torn_down_pool_def idle_run_def
        fresh_simps op_simps)
  show ?thesis
    using a c d q a' c' d' e' q'
      worker_step_after_teardown [OF a b, of False 6 False 7]
      worker_step_after_teardown [OF a' b', of True 61000000000]
      worker_step_after_teardown [OF a' b', of True 59000000000 False 0]
    by simp
qed

subsection \<open>The value of a Result\<close>

text \<open>
  The claim that the \<^verbatim>\<open>Result\<close> of every accepted and executed task yields the value of
  the task fails when the same task object is submitted again before it is executed.
  A task holds one pointer to a \<^verbatim>\<open>Result\<close>, and the constructor of the second \<^verbatim>\<open>Result\<close>
  overwrites it. In \<open>twice_submitted_pool\<close> task 1 was accepted twice and executed
  twice; both values went to the \<^verbatim>\<open>Result\<close> at 102, and \<^verbatim>\<open>get\<close> on the one at 101 blocks.
\<close>

theorem resubmitted_task_blocks_first_future:
  "isValid (results twice_submitted_pool 101)
   \<and> isValid (results twice_submitted_pool 102)
   \<and> taskQue twice_submitted_pool = []
   \<and> run_calls twice_submitted_pool = [1, 1]
   \<and> fst (get 101 twice_submitted_pool) = Blocked
   \<and> fst (get 102 twice_submitted_pool) = Returned (Any_val 1)"
  by (simp add: twice_submitted_pool_def fresh_simps op_simps)

text \<open>
  C2, amended. Let \<^verbatim>\<open>submitTask\<close> accept the task \<open>sp\<close> and return the \<^verbatim>\<open>Result\<close> at
  \<open>res\<close>, and let a worker be about to execute \<open>sp\<close> in a later state in which the task
  object and the \<^verbatim>\<open>Result\<close> are as that call left them (the task has not been submitted
  again, the \<^verbatim>\<open>Result\<close> has not been signalled). Then \<^verbatim>\<open>get\<close> on the \<^verbatim>\<open>Result\<close> blocks
  before the step of the worker, and after it returns exactly the value that \<^verbatim>\<open>run\<close> of
  the task produces.
\<close>

theorem future_yields_run_value:
  assumes accepted: "notFull_pred w0"
    and same_task: "tasks w sp = tasks (submitTask sp res w0) sp"
    and same_result: "results w res = results (submitTask sp res w0) res"
    and worker: "i < length (workers w)" "loc (workers w ! i) = Running sp"
  shows "fst (get res w) = Blocked
         \<and> fst (get res (threadFunc i timed_out now w)) = Returned (run (tasks w0 sp))"
proof -
  have t: "result (tasks w sp) = Some res" and r: "run (tasks w sp) = run (tasks w0 sp)"
    by (simp_all add: same_task submitTask_task)
  have v: "isValid (results w res)" and s: "sem (results w res) = 0"
    by (simp_all add: same_result submitTask_result accepted)
  have before: "fst (get res w) = Blocked"
    using v s by (simp add: get_def)
  have "threadFunc i timed_out now w = set_loc i Ran (exec sp w)"
    using worker by (rule threadFunc_Running)
  then have "results (threadFunc i timed_out now w) res
             = (results w res)\<lparr>any := run (tasks w0 sp), sem := Suc 0\<rparr>"
    using t r s by (simp add: set_loc_def exec_def setVal_def)
  then have "fst (get res (threadFunc i timed_out now w)) = Returned (run (tasks w0 sp))"
    using v by (simp add: get_def)
  with before show ?thesis by simp
qed

theorem future_yields_run_value_witness:
  "notFull_pred started_pool
   \<and> tasks taken_pool 3 = tasks (submitTask 3 103 started_pool) 3
   \<and> results taken_pool 103 = results (submitTask 3 103 started_pool) 103
   \<and> loc (workers taken_pool ! 0) = Running 3
   \<and> fst (get 103 taken_pool) = Blocked
   \<and> fst (get 103 (threadFunc 0 False 7 taken_pool)) = Returned (Any_val 9)"
proof -
  have a: "notFull_pred started_pool"
    and b: "tasks taken_pool 3 = tasks (submitTask 3 103 started_pool) 3"
    and c: "results taken_pool 103 = results (submitTask 3 103 started_pool) 103"
    and d: "0 < length (workers taken_pool)"
    and e: "loc (workers taken_pool ! 0) = Running 3"
    and f: "run (tasks started_pool 3) = Any_val 9"
    by (simp_all add: taken_pool_def fresh_simps op_simps)
  show ?thesis
    using a b c e f future_yields_run_value [OF a b c d e, of False 7] by simp
qed

subsection \<open>Rejected submissions\<close>

text \<open>
  The claim that a submission is rejected whenever the queue stays at or above the
  capacity threshold fails for a negative threshold: the empty queue is at or above
  \<open>- 1\<close>, but \<^verbatim>\<open>(size_t)\<close> turns \<open>- 1\<close> into \<open>2 ^ 64 - 1\<close> and line 71 finds the queue
  below it. The task is enqueued and counted, and \<^verbatim>\<open>get\<close> on the valid \<^verbatim>\<open>Result\<close> blocks.
\<close>

theorem negative_threshold_not_rejected:
  "sint (taskQueMaxThreshHold negative_capacity_pool)
     \<le> int (length (taskQue negative_capacity_pool))
   \<and> isValid (results (submitTask 1 101 negative_capacity_pool) 101)
   \<and> taskQue (submitTask 1 101 negative_capacity_pool) = [1]
   \<and> taskSize (submitTask 1 101 negative_capacity_pool) = 1
   \<and> fst (get 101 (submitTask 1 101 negative_capacity_pool)) = Blocked"
  by (simp add: negative_capacity_pool_def fresh_simps op_simps)

text \<open>
  For a threshold that is not negative, the queue is at or above the converted threshold
  exactly when it is at or above the threshold itself.
\<close>

lemma at_threshold_iff:
  assumes "0 \<le>s taskQueMaxThreshHold p"
  shows "(size_t_of (taskQueMaxThreshHold p) \<le> length (taskQue p))
         = (sint (taskQueMaxThreshHold p) \<le> int (length (taskQue p)))"
  using size_t_of_nonneg [OF assms] by auto

text \<open>
  C3, amended. When \<^verbatim>\<open>wait_for\<close> in \<^verbatim>\<open>submitTask\<close> returns with the queue still at or
  above the capacity threshold converted to \<^verbatim>\<open>size_t\<close> (the configured threshold itself
  when that is not negative), the call leaves the task queue and the pending-task counter
  as they are, the \<^verbatim>\<open>Result\<close> it returns is invalid, and \<^verbatim>\<open>get\<close> on that \<^verbatim>\<open>Result\<close>
  returns the empty string at once: it does not wait on the semaphore and changes nothing.
\<close>

theorem rejected_submission:
  assumes "size_t_of (taskQueMaxThreshHold w) \<le> length (taskQue w)"
  shows "taskQue (submitTask sp res w) = taskQue w
         \<and> taskSize (submitTask sp res w) = taskSize w
         \<and> \<not> isValid (results (submitTask sp res w) res)
         \<and> get res (submitTask sp res w) = (Returned (Any_cstr ''''), submitTask sp res w)"
proof -
  from assms have "\<not> notFull_pred w"
    by (simp add: notFull_pred_def)
  then show ?thesis
    by (simp add: submitTask_def Result_ctor_def setResult_def get_def)
qed

theorem rejected_submission_witness:
  "size_t_of (taskQueMaxThreshHold full_pool) \<le> length (taskQue full_pool)
   \<and> 0 \<le>s taskQueMaxThreshHold full_pool
   \<and> sint (taskQueMaxThreshHold full_pool) \<le> int (length (taskQue full_pool))
   \<and> taskQue (submitTask 3 103 full_pool) = [1, 2]
   \<and> taskSize (submitTask 3 103 full_pool) = 2
   \<and> \<not> isValid (results (submitTask 3 103 full_pool) 103)
   \<and> fst (get 103 (submitTask 3 103 full_pool)) = Returned (Any_cstr '''')"
proof -
  have full: "size_t_of (taskQueMaxThreshHold full_pool) \<le> length (taskQue full_pool)"
    and nonneg: "0 \<le>s taskQueMaxThreshHold full_pool"
    and q: "taskQue full_pool = [1, 2]" and n: "taskSize full_pool = 2"
    by (simp_all add: full_pool_def half_full_pool_def fresh_simps op_simps)
  show ?thesis
    using full nonneg q n at_threshold_iff [OF nonneg]
      rejected_submission [OF full, of 3 103] by simp
qed

subsection \<open>Executing a task\<close>

text \<open>
  The claim that \<^verbatim>\<open>exec\<close> calls \<^verbatim>\<open>run\<close> even when no \<^verbatim>\<open>Result\<close> is attached fails: task 5
  of a fresh pool has none, and \<^verbatim>\<open>exec\<close> on it calls nothing.
\<close>

theorem exec_skips_unattached_task:
  "result (tasks fresh_pool 5) = None \<and> run_calls (exec 5 fresh_pool) = []"
  by (simp add: fresh_simps op_simps)

text \<open>
  C4, amended. \<^verbatim>\<open>Task::exec\<close> calls \<^verbatim>\<open>run\<close> exactly when a \<^verbatim>\<open>Result\<close> is attached to the
  task, and then stores the value of \<^verbatim>\<open>run\<close> in that \<^verbatim>\<open>Result\<close> and posts its semaphore
  once; when none is attached, \<^verbatim>\<open>exec\<close> does nothing.
\<close>

theorem exec_runs_attached_task:
  "(case result (tasks w t) of
      None \<Rightarrow> exec t w = w
    | Some res \<Rightarrow>
        run_calls (exec t w) = run_calls w @ [t]
        \<and> any (results (exec t w) res) = run (tasks w t)
        \<and> sem (results (exec t w) res) = Suc (sem (results w res)))"
  by (simp add: exec_def setVal_def split: option.split)

theorem exec_runs_attached_task_witness:
  "result (tasks (submitTask 3 103 fresh_pool) 3) = Some 103
   \<and> run_calls (exec 3 (submitTask 3 103 fresh_pool)) = [3]
   \<and> any (results (exec 3 (submitTask 3 103 fresh_pool)) 103) = Any_val 9
   \<and> sem (results (exec 3 (submitTask 3 103 fresh_pool)) 103) = 1"
proof -
  have a: "result (tasks (submitTask 3 103 fresh_pool) 3) = Some 103"
    and b: "run_calls (submitTask 3 103 fresh_pool) = []"
    and c: "run (tasks (submitTask 3 103 fresh_pool) 3) = Any_val 9"
    and d: "sem (results (submitTask 3 103 fresh_pool) 103) = 0"
    by (simp_all add: fresh_simps op_simps)
  show ?thesis
    using a b c d exec_runs_attached_task [where w = "submitTask 3 103 fresh_pool" and t = 3] by simp
qed

subsection \<open>The worker count and its threshold\<close>

text \<open>
  \<^verbatim>\<open>start\<close> on a pool that has given out no thread id finds every thread it has made:
  it does not fault, whatever its argument.
\<close>

lemma create_threads_keeps:
  "threads w x \<noteq> None \<Longrightarrow> threads (create_threads k w) x \<noteq> None"
proof (induction k arbitrary: w)
  case 0
  then show ?case by simp
next
  case (Suc k)
  then show ?case
    by (simp add: Thread_ctor_def getId_def emplace_def Let_def split: option.split)
qed

lemma create_threads_registers:
  "j < k \<Longrightarrow> threads (create_threads k w) (generateId w + of_nat j) \<noteq> None"
proof (induction k arbitrary: w j)
  case 0
  then show ?case by simp
next
  case (Suc k)
  let ?w1 = "w\<lparr>generateId := generateId w + 1,
                threads := emplace (generateId w) \<lparr>threadId = generateId w\<rparr> (threads w)\<rparr>"
  have unfold: "create_threads (Suc k) w = create_threads k ?w1"
    by (simp add: Thread_ctor_def getId_def Let_def)
  show ?case
  proof (cases j)
    case 0
    have "threads ?w1 (generateId w) \<noteq> None"
      by (simp add: emplace_present)
    from create_threads_keeps [OF this] 0 unfold show ?thesis by simp
  next
    case (Suc j')
    with Suc.prems have "j' < k" by simp
    from Suc.IH [OF this, of ?w1] Suc unfold show ?thesis
      by (simp add: ac_simps)
  qed
qed

lemma start_threads_succeeds:
  "(\<And>j. j < k \<Longrightarrow> threads w (i + of_nat j) \<noteq> None) \<Longrightarrow> \<not> isl (start_threads k i w)"
proof (induction k arbitrary: i w)
  case 0
  then show ?case by simp
next
  case (Suc k)
  from Suc.prems [of 0] obtain t where t: "threads w i = Some t" by auto
  let ?w1 = "(Thread_start t w)\<lparr>idleThreadSize := idleThreadSize (Thread_start t w) + 1\<rparr>"
  have "threads ?w1 (i + 1 + of_nat j) \<noteq> None" if "j < k" for j
    using Suc.prems [of "Suc j"] that by (simp add: Thread_start_def ac_simps)
  from Suc.IH [of ?w1 "i + 1", OF this] t show ?case
    by (simp add: Let_def)
qed

lemma start_succeeds:
  assumes "generateId w = 0"
  shows "\<not> isl (start n w)"
proof -
  let ?w1 = "w\<lparr>isPoolRunning := True, initThreadSize := n, curThreadSize := n\<rparr>"
  have "threads (create_threads (nat (sint n)) ?w1) (0 + of_nat j) \<noteq> None"
    if "j < nat (sint n)" for j
    using create_threads_registers [OF that, of ?w1] assms by simp
  from start_threads_succeeds [OF this] show ?thesis
    by (simp add: start_def Let_def)
qed

text \<open>
  The claim that the worker count never exceeds its threshold fails: \<^verbatim>\<open>start\<close> sets the
  count to its argument without looking at the threshold. On a freshly constructed pool,
  whose threshold is 1024, \<^verbatim>\<open>start(1025)\<close> leaves the count at 1025.
\<close>

theorem start_exceeds_threshold:
  "\<not> isl (start 1025 fresh_pool)
   \<and> curThreadSize (projr (start 1025 fresh_pool)) = 1025
   \<and> threadSizeThreshHold (projr (start 1025 fresh_pool)) = 1024
   \<and> \<not> curThreadSize (projr (start 1025 fresh_pool))
          \<le>s threadSizeThreshHold (projr (start 1025 fresh_pool))"
proof -
  have "generateId fresh_pool = 0"
    by (simp add: fresh_simps)
  then have ok: "\<not> isl (start 1025 fresh_pool)"
    by (rule start_succeeds)
  then have "start 1025 fresh_pool = Inr (projr (start 1025 fresh_pool))"
    by simp
  from start_frame [OF this] ok show ?thesis
    by (simp add: fresh_simps)
qed

text \<open>
  The same in an elastic pool with the threshold set to 1, where \<^verbatim>\<open>start(2)\<close> launches
  two workers.
\<close>

lemma start_exceeds_small_threshold:
  "\<not> isl (start 2 small_cached_pool)
   \<and> curThreadSize (projr (start 2 small_cached_pool)) = 2
   \<and> length (workers (projr (start 2 small_cached_pool))) = 2
   \<and> threadSizeThreshHold (projr (start 2 small_cached_pool)) = 1
   \<and> \<not> curThreadSize (projr (start 2 small_cached_pool))
          \<le>s threadSizeThreshHold (projr (start 2 small_cached_pool))"
  by (simp add: small_cached_pool_def fresh_simps op_simps)

lemma step_keeps_threshold:
  assumes "curThreadSize w \<le>s threadSizeThreshHold w"
    and "within_threshold e w" and "step e w = Inr w'"
  shows "curThreadSize w' \<le>s threadSizeThreshHold w'"
proof (cases e)
  case (SetMode m)
  with assms show ?thesis by (auto simp: setMode_def)
next
  case (SetTaskQueMaxThreshHold t)
  with assms show ?thesis by (auto simp: setTaskQueMaxThreshHold_def)
next
  case (SetThreadSizeThreshHold t)
  with assms show ?thesis
    by (cases "poolMode w") (auto simp: setThreadSizeThreshHold_def checkRunningState_def)
next
  case (Start n)
  with assms start_frame [of n w w'] show ?thesis by simp
next
  case (SubmitTask sp res)
  with assms submitTask_counts [of sp res w] show ?thesis
    by (auto simp: sle_succ)
next
  case (Get res)
  with assms get_frame [of res w] show ?thesis by auto
next
  case (Worker i timed_out now)
  with assms threadFunc_counts [of i timed_out now w] show ?thesis
    by (auto simp: sle_pred_mono)
next
  case Teardown
  with assms show ?thesis by (auto simp: dtor_begin_def)
qed

text \<open>
  C5, amended. The current worker count stays at or below the worker count threshold
  along every run in which \<^verbatim>\<open>start\<close> is called with a baseline that is at most the
  threshold and every \<^verbatim>\<open>setThreadSizeThreshHold\<close> that takes effect sets a threshold that
  is at least the current count: \<^verbatim>\<open>submitTask\<close> adds a worker only below the threshold,
  and no step of a worker adds one.
\<close>

theorem threshold_kept:
  assumes "curThreadSize w \<le>s threadSizeThreshHold w"
    and "respects_threshold es w" and "run_events es w = Inr w'"
  shows "curThreadSize w' \<le>s threadSizeThreshHold w'"
  using assms
proof (induction es arbitrary: w)
  case Nil
  then show ?case by simp
next
  case (Cons e es)
  from Cons.prems(3) obtain w1
    where w1: "step e w = Inr w1" and rest: "run_events es w1 = Inr w'"
    by (auto split: sum.splits)
  from Cons.prems(2) w1 have ok: "within_threshold e w" and ok': "respects_threshold es w1"
    by simp_all
  from step_keeps_threshold [OF Cons.prems(1) ok w1]
  have "curThreadSize w1 \<le>s threadSizeThreshHold w1" .
  from Cons.IH [OF this ok' rest] show ?case .
qed

theorem threshold_kept_witness:
  "curThreadSize fresh_pool \<le>s threadSizeThreshHold fresh_pool
   \<and> respects_threshold grow_run fresh_pool
   \<and> \<not> isl (run_events grow_run fresh_pool)
   \<and> curThreadSize (projr (run_events grow_run fresh_pool)) = 2
   \<and> threadSizeThreshHold (projr (run_events grow_run fresh_pool)) = 2"
proof -
  have a: "curThreadSize fresh_pool \<le>s threadSizeThreshHold fresh_pool"
    by (simp add: fresh_simps op_simps)
  have b: "respects_threshold grow_run fresh_pool"
    by (simp add: grow_run_def fresh_simps op_simps)
  have c: "\<not> isl (run_events grow_run fresh_pool)"
    by (simp add: grow_run_def fresh_simps op_simps)
  then have d: "run_events grow_run fresh_pool = Inr (projr (run_events grow_run fresh_pool))"
    by simp
  have e: "curThreadSize (projr (run_events grow_run fresh_pool)) = 2"
    and f: "threadSizeThreshHold (projr (run_events grow_run fresh_pool)) = 2"
    by (simp_all add: grow_run_def fresh_simps op_simps)
  show ?thesis
    using a b c e f threshold_kept [OF a b d] by simp
qed

subsection \<open>The worker count and the baseline\<close>






subsection \<open>The capacity of the queue\<close>

text \<open>
  The claim that the queue is never longer than the configured threshold after an
  accepted submission fails for a negative threshold: \<^verbatim>\<open>(size_t)\<close> turns \<open>- 1\<close> into
  \<open>2 ^ 64 - 1\<close>, the empty queue is below it, and the task is accepted.
\<close>

theorem negative_capacity_accepts:
  "isValid (results (submitTask 1 101 negative_capacity_pool) 101)
   \<and> taskQue (submitTask 1 101 negative_capacity_pool) = [1]
   \<and> taskQueMaxThreshHold (submitTask 1 101 negative_capacity_pool) = - 1
   \<and> \<not> int (length (taskQue (submitTask 1 101 negative_capacity_pool)))
          \<le> sint (taskQueMaxThreshHold (submitTask 1 101 negative_capacity_pool))"
  by (simp add: negative_capacity_pool_def fresh_simps op_simps)

text \<open>
  C7, amended. \<^verbatim>\<open>submitTask\<close> accepts a task only when the queue is shorter than the
  threshold converted to \<^verbatim>\<open>size_t\<close>, and appends it, so that the queue is then at most as
  long as the converted threshold; when the configured threshold is not negative, the
  queue is at most as long as the threshold itself after every accepted submission.
\<close>

theorem accepted_within_capacity:
  assumes "isValid (results (submitTask sp res w) res)"
  shows "notFull_pred w
         \<and> taskQue (submitTask sp res w) = taskQue w @ [sp]
         \<and> length (taskQue (submitTask sp res w))
              \<le> size_t_of (taskQueMaxThreshHold (submitTask sp res w))
         \<and> (0 \<le>s taskQueMaxThreshHold w \<longrightarrow>
              int (length (taskQue (submitTask sp res w)))
                \<le> sint (taskQueMaxThreshHold (submitTask sp res w)))"
proof -
  from assms have space: "notFull_pred w"
    by (simp add: submitTask_valid)
  then have below: "length (taskQue w) < size_t_of (taskQueMaxThreshHold w)"
    by (simp add: notFull_pred_def)
  have "int (length (taskQue w)) < sint (taskQueMaxThreshHold w)"
    if "0 \<le>s taskQueMaxThreshHold w"
    using below size_t_of_nonneg [OF that] by linarith
  with space below show ?thesis
    by (auto simp: submitTask_queue submitTask_threshold)
qed

theorem accepted_within_capacity_witness:
  "isValid (results (submitTask 2 102 half_full_pool) 102)
   \<and> 0 \<le>s taskQueMaxThreshHold half_full_pool
   \<and> taskQue (submitTask 2 102 half_full_pool) = [1, 2]
   \<and> sint (taskQueMaxThreshHold (submitTask 2 102 half_full_pool)) = 2"
proof -
  have v: "isValid (results (submitTask 2 102 half_full_pool) 102)"
    and t: "0 \<le>s taskQueMaxThreshHold half_full_pool"
    and q: "taskQue half_full_pool = [1]"
    and m: "taskQueMaxThreshHold (submitTask 2 102 half_full_pool) = 2"
    by (simp_all add: half_full_pool_def fresh_simps op_simps)
  show ?thesis
    using v t q m accepted_within_capacity [OF v] by simp
qed

subsection \<open>The order of the queue\<close>

lemma loop_head_takes:
  assumes "i < length (workers w)"
  shows "taskQue w =
         (case loc (workers (loop_head i w) ! i) of Running t \<Rightarrow> [t] | _ \<Rightarrow> [])
         @ taskQue (loop_head i w)"
proof (cases "taskQue w")
  case Nil
  with assms show ?thesis by (simp add: loop_head_def set_loc_def)
next
  case (Cons front rest)
  with assms show ?thesis by (simp add: loop_head_def set_loc_def)
qed

lemma after_wait_for_takes:
  assumes "i < length (workers w)"
  shows "taskQue w =
         (case loc (workers (after_wait_for i timed_out now w) ! i) of
            Running t \<Rightarrow> [t] | _ \<Rightarrow> [])
         @ taskQue (after_wait_for i timed_out now w)"
proof (cases "timed_out
         \<and> THREAD_MAX_IDLE_TIME \<le> dur_count (lastTime (workers w ! i)) now
         \<and> initThreadSize w <s curThreadSize w")
  case True
  with assms show ?thesis by (simp add: after_wait_for_def set_loc_def)
next
  case False
  then have "after_wait_for i timed_out now w = loop_head i w"
    by (auto simp: after_wait_for_def)
  with loop_head_takes [OF assms] show ?thesis by simp
qed

lemma exec_queue: "taskQue (exec t w) = taskQue w"
  by (simp add: exec_def setVal_def split: option.split)

lemma threadFunc_queue:
  "taskQue w = dequeued_by (Worker i timed_out now) w @ taskQue (threadFunc i timed_out now w)"
proof (cases "i < length (workers w)")
  case False
  then show ?thesis by (simp add: dequeued_by_def threadFunc_def)
next
  case inside: True
  show ?thesis
  proof (cases "loc (workers w ! i)")
    case Entry
    with inside show ?thesis by (simp add: dequeued_by_def threadFunc_def taking_place_def)
  next
    case AtLock
    with inside loop_head_takes [OF inside] show ?thesis
      by (simp add: dequeued_by_def threadFunc_def taking_place_def)
  next
    case WaitTimed
    with inside after_wait_for_takes [OF inside, of timed_out now] show ?thesis
      by (simp add: dequeued_by_def threadFunc_def taking_place_def)
  next
    case WaitUntimed
    with inside loop_head_takes [OF inside] show ?thesis
      by (simp add: dequeued_by_def threadFunc_def taking_place_def)
  next
    case (Running t)
    with inside show ?thesis
      by (simp add: dequeued_by_def threadFunc_def taking_place_def set_loc_def exec_queue)
  next
    case Ran
    with inside show ?thesis by (simp add: dequeued_by_def threadFunc_def taking_place_def)
  next
    case Exited
    with inside show ?thesis by (simp add: dequeued_by_def threadFunc_def taking_place_def)
  qed
qed

lemma step_queue:
  assumes "step e w = Inr w'"
  shows "taskQue w @ accepted_by e w = dequeued_by e w @ taskQue w'"
proof (cases e)
  case (SetMode m)
  with assms show ?thesis by (auto simp: setMode_def accepted_by_def dequeued_by_def)
next
  case (SetTaskQueMaxThreshHold t)
  with assms show ?thesis
    by (auto simp: setTaskQueMaxThreshHold_def accepted_by_def dequeued_by_def)
next
  case (SetThreadSizeThreshHold t)
  with assms show ?thesis
    by (auto simp: setThreadSizeThreshHold_def accepted_by_def dequeued_by_def)
next
  case (Start n)
  with assms start_frame [of n w w'] show ?thesis
    by (simp add: accepted_by_def dequeued_by_def)
next
  case (SubmitTask sp res)
  with assms show ?thesis
    by (auto simp: accepted_by_def dequeued_by_def submitTask_valid submitTask_queue)
next
  case (Get res)
  with assms get_frame [of res w] show ?thesis
    by (auto simp: accepted_by_def dequeued_by_def)
next
  case (Worker i timed_out now)
  with assms threadFunc_queue [of w i timed_out now] show ?thesis
    by (auto simp: accepted_by_def)
next
  case Teardown
  with assms show ?thesis by (auto simp: dtor_begin_def accepted_by_def dequeued_by_def)
qed

text \<open>
  C8. Tasks leave the queue in the order in which they were accepted: along every run,
  the queue at the start followed by the tasks accepted, in the order of their
  submissions, is the list of the tasks taken by the workers, in the order in which they
  were taken, followed by the queue at the end. Each worker takes the head of the queue,
  so a task accepted earlier is taken before a task accepted later. Nothing is said about
  the order in which the tasks complete.
\<close>

theorem fifo_order:
  assumes "run_events es w = Inr w'"
  shows "taskQue w @ accepted es w = dequeued es w @ taskQue w'"
  using assms
proof (induction es arbitrary: w)
  case Nil
  then show ?case by simp
next
  case (Cons e es)
  from Cons.prems obtain w1
    where w1: "step e w = Inr w1" and rest: "run_events es w1 = Inr w'"
    by (auto split: sum.splits)
  have "taskQue w @ accepted (e # es) w = (taskQue w @ accepted_by e w) @ accepted es w1"
    using w1 by simp
  also have "\<dots> = dequeued_by e w @ (taskQue w1 @ accepted es w1)"
    using step_queue [OF w1] by simp
  also have "\<dots> = dequeued_by e w @ (dequeued es w1 @ taskQue w')"
    using Cons.IH [OF rest] by simp
  also have "\<dots> = dequeued (e # es) w @ taskQue w'"
    using w1 by simp
  finally show ?case .
qed

theorem fifo_order_witness:
  "\<not> isl (run_events fifo_run started_pool)
   \<and> taskQue started_pool = []
   \<and> accepted fifo_run started_pool = [1, 2, 3]
   \<and> dequeued fifo_run started_pool = [1, 2]
   \<and> taskQue (projr (run_events fifo_run started_pool)) = [3]"
proof -
  have c: "\<not> isl (run_events fifo_run started_pool)"
    by (simp add: fifo_run_def fresh_simps op_simps)
  then have d: "run_events fifo_run started_pool = Inr (projr (run_events fifo_run started_pool))"
    by simp
  have q: "taskQue started_pool = []"
    and a: "accepted fifo_run started_pool = [1, 2, 3]"
    and b: "dequeued fifo_run started_pool = [1, 2]"
    by (simp_all add: fifo_run_def fresh_simps op_simps accepted_by_def dequeued_by_def
        taking_place_def)
  show ?thesis
    using c q a b fifo_order [OF d] by simp
qed

subsection \<open>Configuration after start\<close>

text \<open>
  C9. On a running pool each of the three setters returns the state it was given:
  the mode, the two thresholds and everything else stay as they are.
\<close>

theorem setters_frozen_when_running:
  assumes "isPoolRunning p"
  shows "setMode mode p = p
         \<and> setTaskQueMaxThreshHold t p = p
         \<and> setThreadSizeThreshHold t' p = p"
  using assms
  by (simp add: setMode_def setTaskQueMaxThreshHold_def setThreadSizeThreshHold_def
      checkRunningState_def)

theorem setters_frozen_when_running_witness:
  "isPoolRunning started_pool
   \<and> setMode MODE_CACHED started_pool = started_pool
   \<and> setTaskQueMaxThreshHold 5 started_pool = started_pool
   \<and> setThreadSizeThreshHold 8 started_pool = started_pool"
proof -
  have running: "isPoolRunning started_pool"
    by (simp add: fresh_simps op_simps)
  show ?thesis
    using running setters_frozen_when_running [OF running, of MODE_CACHED 5 8] by simp
qed

text \<open>
  C10. On a pool that is not running and is in fixed mode, \<^verbatim>\<open>setThreadSizeThreshHold\<close>
  with any argument returns the state it was given, so the worker count threshold stays
  as it is: the setter writes the threshold only in cached mode.
\<close>

theorem thread_threshold_fixed_mode:
  assumes "\<not> isPoolRunning p" and "poolMode p = MODE_FIXED"
  shows "setThreadSizeThreshHold t p = p
         \<and> threadSizeThreshHold (setThreadSizeThreshHold t p) = threadSizeThreshHold p"
  using assms by (simp add: setThreadSizeThreshHold_def checkRunningState_def)

theorem thread_threshold_fixed_mode_witness:
  "\<not> isPoolRunning fresh_pool \<and> poolMode fresh_pool = MODE_FIXED
   \<and> setThreadSizeThreshHold 8 fresh_pool = fresh_pool
   \<and> threadSizeThreshHold (setThreadSizeThreshHold 8 fresh_pool) = 1024"
proof -
  have a: "\<not> isPoolRunning fresh_pool" and b: "poolMode fresh_pool = MODE_FIXED"
    and c: "threadSizeThreshHold fresh_pool = 1024"
    by (simp_all add: fresh_simps)
  show ?thesis
    using a b c thread_threshold_fixed_mode [OF a b, of 8] by simp
qed

text \<open>In cached mode the same call, before the start, does write the threshold.\<close>

lemma thread_threshold_cached_mode:
  "\<not> isPoolRunning p \<Longrightarrow> poolMode p = MODE_CACHED \<Longrightarrow>
   threadSizeThreshHold (setThreadSizeThreshHold t p) = t"
  by (simp add: setThreadSizeThreshHold_def checkRunningState_def)

end
